theory Spec2Isabelle
  imports Main "HOL-Library.AList" "HOL-Library.Sublist"
begin

section \<open>Key utils (src/src/index.js, lines 39-40)\<close>

text \<open>
  \<^verbatim>\<open>const buildBotmaticKey = (integrationId, botmaticId) => `${integrationId}:b:${botmaticId}`\<close>
  \<^verbatim>\<open>const buildExternalKey = (integrationId, externalId) => `${integrationId}:e:${externalId}`\<close>
  The documented parameter type of every id is \<open>string\<close>, so a template literal is the
  concatenation of its parts.
\<close>

definition buildBotmaticKey :: "string \<Rightarrow> string \<Rightarrow> string" where
  "buildBotmaticKey integrationId botmaticId = integrationId @ '':b:'' @ botmaticId"

definition buildExternalKey :: "string \<Rightarrow> string \<Rightarrow> string" where
  "buildExternalKey integrationId externalId = integrationId @ '':e:'' @ externalId"

text \<open>
  The two directions of an association, and the key of a (scope, direction, id) triple:
  the primary direction is encoded by \<open>buildBotmaticKey\<close>, the external one by
  \<open>buildExternalKey\<close>.
\<close>

datatype direction = PRIMARY | EXTERNAL

fun encodeKey :: "string \<Rightarrow> direction \<Rightarrow> string \<Rightarrow> string" where
  "encodeKey scope PRIMARY ident = buildBotmaticKey scope ident"
| "encodeKey scope EXTERNAL ident = buildExternalKey scope ident"

text \<open>JavaScript truthiness of a string: every string but the empty one.\<close>

definition truthy :: "string \<Rightarrow> bool" where
  "truthy s = (s \<noteq> [])"


section \<open>The backend: a Redis server behind a callback client\<close>

text \<open>
  The store owns no state; everything lives in the Redis server reached through the
  \<open>storage\<close> handle. The server is not part of the repository, so it is modelled here:
  the keyspace is an association list read through \<open>map_of\<close>, and \<open>faults\<close> is the
  script of the coming calls, one flag per call, \<open>True\<close> meaning that the call ends in
  an error (the callback gets \<open>err\<close> set and \<open>value\<close> undefined, the keyspace is left as
  it was). An exhausted script means a backend that answers every call.
\<close>

record storage =
  db :: "(string \<times> string) list"
  faults :: "bool list"

text \<open>What a callback \<open>(err, value)\<close> receives: an error, or the reply of the command.\<close>

datatype 'a reply = Err | Reply 'a

definition next_call :: "storage \<Rightarrow> bool \<times> storage" where
  "next_call st =
     (case faults st of [] \<Rightarrow> (False, st) | f # fs \<Rightarrow> (f, st\<lparr>faults := fs\<rparr>))"

definition healthy :: "storage \<Rightarrow> bool" where
  "healthy st = (faults st = [])"

subsection \<open>Glob patterns of the KEYS command\<close>

text \<open>
  KEYS takes a glob-style pattern: \<open>*\<close> matches any run of characters, \<open>?\<close> one
  character, \<open>[...]\<close> a class (negated by a leading \<open>^\<close>, with ranges \<open>a-z\<close>), and a
  backslash takes the next character literally. The matcher follows the server's
  \<open>stringmatchlen\<close> (case-sensitive); the bounds of a range are compared as byte
  values.
\<close>

fun skip_stars :: "string \<Rightarrow> string" where
  "skip_stars [] = []"
| "skip_stars (c # p) = (if c = CHR ''*'' then skip_stars p else c # p)"

text \<open>
  The body of a class, scanned against the character \<open>x\<close>: the result is whether some
  member matched so far, and the pattern left after the closing bracket (nothing when
  the bracket is never closed).
\<close>

fun class_scan :: "string \<Rightarrow> char \<Rightarrow> bool \<Rightarrow> bool \<times> string" where
  "class_scan [] x m = (m, [])"
| "class_scan (c # p) x m =
     (if c = CHR 0x5C \<and> p \<noteq> [] then class_scan (tl p) x (m \<or> hd p = x)
      else if c = CHR '']'' then (m, p)
      else if 2 \<le> length p \<and> hd p = CHR ''-'' then
        (let lo = min (of_char c :: nat) (of_char (hd (tl p)));
             hi = max (of_char c :: nat) (of_char (hd (tl p)))
         in class_scan (tl (tl p)) x (m \<or> (lo \<le> of_char x \<and> of_char x \<le> hi)))
      else class_scan p x (m \<or> c = x))"

function stringmatch :: "string \<Rightarrow> string \<Rightarrow> bool" where
  "stringmatch [] s = (s = [])"
| "stringmatch (c # p) [] = False"
| "stringmatch (c # p) (x # s) =
     (if c = CHR ''*'' then
        (if skip_stars p = [] then True
         else stringmatch (skip_stars p) (x # s)
              \<or> (s \<noteq> [] \<and> stringmatch (CHR ''*'' # skip_stars p) s))
      else if c = CHR ''?'' then
        (if s = [] then skip_stars p = [] else stringmatch p s)
      else if c = CHR ''['' then
        (let neg = (p \<noteq> [] \<and> hd p = CHR ''^'');
             body = (if neg then tl p else p);
             hit = fst (class_scan body x False);
             rest = snd (class_scan body x False)
         in if hit = neg then False
            else if s = [] then skip_stars rest = [] else stringmatch rest s)
      else if c = CHR 0x5C \<and> p \<noteq> [] then
        (if hd p \<noteq> x then False
         else if s = [] then skip_stars (tl p) = [] else stringmatch (tl p) s)
      else
        (if c \<noteq> x then False
         else if s = [] then skip_stars p = [] else stringmatch p s))"
  by pat_completeness auto
termination
proof -
  have stars: "length (skip_stars p) \<le> length p" for p
    by (induction p) auto
  have scan: "length (snd (class_scan p x m)) \<le> length p" for p x m
  proof (induction p x m rule: class_scan.induct)
    case (1 x m)
    show ?case by simp
  next
    case (2 c p x m)
    show ?case
    proof (cases "c = CHR 0x5C \<and> p \<noteq> []")
      case True
      with 2(1) have "length (snd (class_scan (tl p) x (m \<or> hd p = x))) \<le> length (tl p)"
        by simp
      with True show ?thesis by simp
    next
      case esc: False
      show ?thesis
      proof (cases "c = CHR '']''")
        case True
        with esc show ?thesis by auto
      next
        case br: False
        show ?thesis
        proof (cases "2 \<le> length p \<and> hd p = CHR ''-''")
          case True
          with 2(2) esc br
          have "length (snd (class_scan (tl (tl p)) x
                   (m \<or> (min (of_char c :: nat) (of_char (hd (tl p))) \<le> of_char x
                        \<and> of_char x \<le> max (of_char c :: nat) (of_char (hd (tl p)))))))
                \<le> length (tl (tl p))"
            by (simp add: Let_def)
          with True esc br show ?thesis by (auto simp: Let_def)
        next
          case False
          with 2(3) esc br have "length (snd (class_scan p x (m \<or> c = x))) \<le> length p"
            by simp
          with False esc br show ?thesis by auto
        qed
      qed
    qed
  qed
  show ?thesis
  proof (relation "measure (\<lambda>(p, s). length p + length s)", goal_cases)
    case 1
    show ?case by simp
  next
    case (2 c p x s)
    show ?case using stars [of p] by simp
  next
    case (3 c p x s)
    show ?case using stars [of p] by simp
  next
    case (4 c p x s)
    show ?case by simp
  next
    case (5 c p x s neg body hit rest)
    have "length rest \<le> length body"
      using 5 scan [of body x False] by simp
    moreover have "length body \<le> length p"
      using 5 by simp
    ultimately show ?case by simp
  next
    case (6 c p x s)
    show ?case by simp
  next
    case (7 c p x s)
    show ?case by simp
  qed
qed

subsection \<open>The commands\<close>

text \<open>SET stores the value under the key and replies \<open>OK\<close>.\<close>

definition client_set :: "storage \<Rightarrow> string \<Rightarrow> string \<Rightarrow> string reply \<times> storage" where
  "client_set st key val =
     (case next_call st of
        (True, st') \<Rightarrow> (Err, st')
      | (False, st') \<Rightarrow> (Reply ''OK'', st'\<lparr>db := AList.update key val (db st')\<rparr>))"

text \<open>GET replies the stored value, or null (\<open>None\<close>) when the key does not exist.\<close>

definition client_get :: "storage \<Rightarrow> string \<Rightarrow> string option reply \<times> storage" where
  "client_get st key =
     (case next_call st of
        (True, st') \<Rightarrow> (Err, st')
      | (False, st') \<Rightarrow> (Reply (map_of (db st') key), st'))"

text \<open>
  DEL removes the listed keys and replies the number of keys that existed. Called with no
  key at all it is rejected by the server (wrong number of arguments).
\<close>

fun redis_del :: "string list \<Rightarrow> (string \<times> string) list \<Rightarrow> int \<times> (string \<times> string) list" where
  "redis_del [] d = (0, d)"
| "redis_del (k # ks) d =
     (if map_of d k = None then redis_del ks d
      else (fst (redis_del ks (AList.delete k d)) + 1, snd (redis_del ks (AList.delete k d))))"

definition client_del :: "storage \<Rightarrow> string list \<Rightarrow> int reply \<times> storage" where
  "client_del st ks =
     (case next_call st of
        (True, st') \<Rightarrow> (Err, st')
      | (False, st') \<Rightarrow>
          (if ks = [] then (Err, st')
           else (Reply (fst (redis_del ks (db st'))), st'\<lparr>db := snd (redis_del ks (db st'))\<rparr>)))"

text \<open>KEYS replies every key of the keyspace that matches the pattern.\<close>

definition client_keys :: "storage \<Rightarrow> string \<Rightarrow> string list reply \<times> storage" where
  "client_keys st pat =
     (case next_call st of
        (True, st') \<Rightarrow> (Err, st')
      | (False, st') \<Rightarrow> (Reply (filter (stringmatch pat) (map fst (db st'))), st'))"


section \<open>Internal functions (src/src/index.js, lines 54-139)\<close>

text \<open>
  Every function takes the storage handle first and returns its result with the handle
  after the call. The methods exported by \<open>init\<close> (\<open>saveIds\<close>, \<open>getBotmaticId\<close>,
  \<open>getExtId\<close>, \<open>deleteIds\<close>, \<open>deleteAllIds\<close>) pass their arguments on to the
  functions of the same name below, so these stand for both.
\<close>

text \<open>What a lookup resolves to: the callback's \<open>value\<close>, undefined after an error.\<close>

datatype jsval = Undefined | Null | Str string

text \<open>\<^verbatim>\<open>resolve(value === "OK")\<close>\<close>

definition saveId :: "storage \<Rightarrow> string \<Rightarrow> string \<Rightarrow> bool \<times> storage" where
  "saveId st key ident =
     (case client_set st key ident of
        (Err, st') \<Rightarrow> (False, st')
      | (Reply v, st') \<Rightarrow> (v = ''OK'', st'))"

text \<open>\<^verbatim>\<open>resolve(value)\<close>\<close>

definition getId :: "storage \<Rightarrow> string \<Rightarrow> jsval \<times> storage" where
  "getId st key =
     (case client_get st key of
        (Err, st') \<Rightarrow> (Undefined, st')
      | (Reply None, st') \<Rightarrow> (Null, st')
      | (Reply (Some v), st') \<Rightarrow> (Str v, st'))"

text \<open>\<^verbatim>\<open>resolve(value > 0)\<close>: \<open>undefined > 0\<close> is false.\<close>

definition delId :: "storage \<Rightarrow> string \<Rightarrow> bool \<times> storage" where
  "delId st key =
     (case client_del st [key] of
        (Err, st') \<Rightarrow> (False, st')
      | (Reply n, st') \<Rightarrow> (n > 0, st'))"

text \<open>
  \<^verbatim>\<open>values.reduce((acc, value) => acc === true && value === true, true)\<close>
\<close>

definition allPromisesTrue :: "bool list \<Rightarrow> bool" where
  "allPromisesTrue values = foldl (\<lambda>acc v. acc = True \<and> v = True) True values"

text \<open>
  \<open>saveIds\<close>: both keys are built, the guard tests their truthiness, then the two sets are
  awaited one after the other and their results aggregated.
\<close>

definition saveIds :: "storage \<Rightarrow> string \<Rightarrow> string \<Rightarrow> string \<Rightarrow> bool \<times> storage" where
  "saveIds st integrationId botmaticId extId =
     (let botmaticKey = buildBotmaticKey integrationId botmaticId;
          externalKey = buildExternalKey integrationId extId
      in if truthy botmaticKey \<and> truthy externalKey then
           (let r1 = saveId st botmaticKey extId;
                r2 = saveId (snd r1) externalKey botmaticId
            in (allPromisesTrue [fst r1, fst r2], snd r2))
         else (False, st))"

definition getBotmaticId :: "storage \<Rightarrow> string \<Rightarrow> string \<Rightarrow> jsval \<times> storage" where
  "getBotmaticId st integrationId extId =
     (let externalKey = buildExternalKey integrationId extId
      in getId st externalKey)"

definition getExtId :: "storage \<Rightarrow> string \<Rightarrow> string \<Rightarrow> jsval \<times> storage" where
  "getExtId st integrationId botmaticId =
     (let botmaticKey = buildBotmaticKey integrationId botmaticId
      in getId st botmaticKey)"

definition deleteIds :: "storage \<Rightarrow> string \<Rightarrow> string \<Rightarrow> string \<Rightarrow> bool \<times> storage" where
  "deleteIds st integrationId botmaticId extId =
     (let botmaticKey = buildBotmaticKey integrationId botmaticId;
          externalKey = buildExternalKey integrationId extId;
          r1 = delId st botmaticKey;
          r2 = delId (snd r1) externalKey
      in (allPromisesTrue [fst r1, fst r2], snd r2))"

text \<open>
  \<open>deleteAllIds\<close>: the keys matching \<^verbatim>\<open>`${integrationId}:*`\<close> are listed; when the listing
  reports no error they are handed to one DEL, whose callback resolves \<open>true\<close> whatever it
  receives; an error of the listing resolves \<open>false\<close>.
\<close>

definition deleteAllIds :: "storage \<Rightarrow> string \<Rightarrow> bool \<times> storage" where
  "deleteAllIds st integrationId =
     (case client_keys st (integrationId @ '':*'') of
        (Reply keys, st') \<Rightarrow> (True, snd (client_del st' keys))
      | (Err, st') \<Rightarrow> (False, st'))"

section \<open>Predicates used in the statements\<close>

text \<open>The characters a glob pattern does not take literally.\<close>

definition glob_special :: "char \<Rightarrow> bool" where
  "glob_special c = (c = CHR ''*'' \<or> c = CHR ''?'' \<or> c = CHR ''['' \<or> c = CHR 0x5C)"

text \<open>A scope written without the delimiter and without glob characters.\<close>

definition plain_scope :: "string \<Rightarrow> bool" where
  "plain_scope s = (\<forall>c\<in>set s. c \<noteq> CHR '':'' \<and> \<not> glob_special c)"


section \<open>Facts about the keys\<close>

lemma botmatic_external_distinct: "buildBotmaticKey s p \<noteq> buildExternalKey s e"
  by (simp add: buildBotmaticKey_def buildExternalKey_def)

lemma buildExternalKey_same_scope: "buildExternalKey s e1 = buildExternalKey s e2 \<longleftrightarrow> e1 = e2"
  by (simp add: buildExternalKey_def)

lemma keys_truthy: "truthy (buildBotmaticKey s p)" "truthy (buildExternalKey s e)"
  by (simp_all add: truthy_def buildBotmaticKey_def buildExternalKey_def)

lemma encodeKey_unfold:
  "encodeKey s d i =
     s @ CHR '':'' # (case d of PRIMARY \<Rightarrow> CHR ''b'' | EXTERNAL \<Rightarrow> CHR ''e'') # CHR '':'' # i"
  by (cases d) (simp_all add: buildBotmaticKey_def buildExternalKey_def)

lemma scope_before_colon:
  assumes "CHR '':'' \<notin> set s"
  shows "takeWhile (\<lambda>c. c \<noteq> CHR '':'') (s @ CHR '':'' # r) = s"
  using assms by (auto simp: takeWhile_tail)

lemma no_colon_prefix:
  assumes "CHR '':'' \<notin> set s" and "CHR '':'' \<notin> set s'"
    and "prefix (s @ '':'') (s' @ CHR '':'' # r)"
  shows "s = s'"
proof -
  from assms(3) obtain t where eq: "s' @ CHR '':'' # r = s @ CHR '':'' # t"
    by (auto simp: prefix_def)
  have "takeWhile (\<lambda>c. c \<noteq> CHR '':'') (s' @ CHR '':'' # r) = s'"
    using assms(2) by (rule scope_before_colon)
  moreover have "takeWhile (\<lambda>c. c \<noteq> CHR '':'') (s @ CHR '':'' # t) = s"
    using assms(1) by (rule scope_before_colon)
  ultimately show ?thesis using eq by simp
qed


section \<open>Facts about the backend\<close>

lemma delete_absent: "map_of d k = None \<Longrightarrow> AList.delete k d = d"
  by (induction d) (auto split: if_splits)

lemma redis_del_map_of:
  "map_of (snd (redis_del ks d)) k = (if k \<in> set ks then None else map_of d k)"
proof (induction ks arbitrary: d)
  case Nil
  show ?case by simp
next
  case (Cons a ks)
  show ?case
  proof (cases "map_of d a = None")
    case True
    with Cons.IH [of d] show ?thesis by auto
  next
    case False
    with Cons.IH [of "AList.delete a d"] show ?thesis
      by (auto simp: delete_conv')
  qed
qed

lemma stringmatch_literal:
  assumes "\<not> glob_special c"
  shows "stringmatch (c # p) (x # s) =
           (c = x \<and> (if s = [] then skip_stars p = [] else stringmatch p s))"
  using assms by (simp add: glob_special_def)

lemma stringmatch_colon_star: "stringmatch '':*'' k = prefix '':'' k"
proof (cases k)
  case Nil
  then show ?thesis by simp
next
  case (Cons x t)
  then show ?thesis by (cases t) auto
qed

text \<open>
  A pattern made of literal characters followed by \<open>:*\<close> matches exactly the keys that
  start with these characters and a colon.
\<close>

lemma stringmatch_scope_prefix:
  assumes "\<forall>c\<in>set s. \<not> glob_special c"
  shows "stringmatch (s @ '':*'') k = prefix (s @ '':'') k"
  using assms
proof (induction s arbitrary: k)
  case Nil
  show ?case using stringmatch_colon_star by simp
next
  case (Cons a s)
  have lit: "\<not> glob_special a" and rest: "\<forall>c\<in>set s. \<not> glob_special c"
    using Cons.prems by simp_all
  show ?case
  proof (cases k)
    case Nil
    then show ?thesis by simp
  next
    case (Cons x t)
    have nonstar: "skip_stars (s @ '':*'') \<noteq> []"
    proof (cases s)
      case Nil
      then show ?thesis by simp
    next
      case (Cons b s')
      with rest have "b \<noteq> CHR ''*''" by (auto simp: glob_special_def)
      with Cons show ?thesis by simp
    qed
    show ?thesis
    proof (cases "t = []")
      case True
      with Cons nonstar lit show ?thesis
        by (simp add: stringmatch_literal del: stringmatch.simps)
    next
      case False
      with Cons lit Cons.IH [OF rest, of t] show ?thesis
        by (simp add: stringmatch_literal del: stringmatch.simps)
    qed
  qed
qed


section \<open>Facts about the internal functions\<close>

lemma allPromisesTrue_pair: "allPromisesTrue [a, b] = (a \<and> b)"
  by (simp add: allPromisesTrue_def)

lemma saveId_cases:
  "saveId st k v =
     (case faults st of
        [] \<Rightarrow> (True, st\<lparr>db := AList.update k v (db st)\<rparr>)
      | f # fs \<Rightarrow> (if f then (False, st\<lparr>faults := fs\<rparr>)
                   else (True, st\<lparr>faults := fs, db := AList.update k v (db st)\<rparr>)))"
  by (simp add: saveId_def client_set_def next_call_def split: list.splits)

lemma delId_cases:
  "delId st k =
     (case faults st of
        [] \<Rightarrow> (map_of (db st) k \<noteq> None, st\<lparr>db := AList.delete k (db st)\<rparr>)
      | f # fs \<Rightarrow> (if f then (False, st\<lparr>faults := fs\<rparr>)
                   else (map_of (db st) k \<noteq> None,
                         st\<lparr>faults := fs, db := AList.delete k (db st)\<rparr>)))"
  by (auto simp: delId_def client_del_def next_call_def delete_absent split: list.splits)

lemma saveId_reply:
  "fst (saveId st k v) = (fst (client_set st k v) = Reply ''OK'')"
  "snd (saveId st k v) = snd (client_set st k v)"
  by (auto simp: saveId_def split: prod.splits reply.splits)

lemma saveId_true_written: "fst (saveId st k v) \<Longrightarrow> map_of (db (snd (saveId st k v))) k = Some v"
  by (auto simp: saveId_cases update_conv' split: list.splits if_splits)

lemma saveId_false_unchanged: "\<not> fst (saveId st k v) \<Longrightarrow> db (snd (saveId st k v)) = db st"
  by (auto simp: saveId_cases split: list.splits if_splits)

lemma delId_reply:
  "fst (delId st k) = (\<exists>n. fst (client_del st [k]) = Reply n \<and> 0 < n)"
  "snd (delId st k) = snd (client_del st [k])"
  by (auto simp: delId_def split: prod.splits reply.splits)

lemma delId_true_present: "fst (delId st k) \<Longrightarrow> map_of (db st) k \<noteq> None"
  by (auto simp: delId_cases split: list.splits if_splits)

lemma delId_other_key:
  "k' \<noteq> k \<Longrightarrow> map_of (db (snd (delId st k))) k' = map_of (db st) k'"
  by (auto simp: delId_cases split: list.splits if_splits)




subsection \<open>On a backend that answers every call\<close>

lemma healthy_db_update [simp]: "healthy (st\<lparr>db := d\<rparr>) = healthy st"
  by (simp add: healthy_def)

lemma getId_healthy:
  "healthy st \<Longrightarrow> getId st k = (case map_of (db st) k of None \<Rightarrow> Null | Some v \<Rightarrow> Str v, st)"
  by (simp add: healthy_def getId_def client_get_def next_call_def split: option.splits)

lemma getExtId_healthy:
  "healthy st \<Longrightarrow> getExtId st s p =
     (case map_of (db st) (buildBotmaticKey s p) of None \<Rightarrow> Null | Some v \<Rightarrow> Str v, st)"
  by (simp add: getExtId_def Let_def getId_healthy)

lemma getBotmaticId_healthy:
  "healthy st \<Longrightarrow> getBotmaticId st s e =
     (case map_of (db st) (buildExternalKey s e) of None \<Rightarrow> Null | Some v \<Rightarrow> Str v, st)"
  by (simp add: getBotmaticId_def Let_def getId_healthy)

lemma saveId_healthy:
  "healthy st \<Longrightarrow> saveId st k v = (True, st\<lparr>db := AList.update k v (db st)\<rparr>)"
  by (simp add: healthy_def saveId_cases)

lemma delId_healthy:
  "healthy st \<Longrightarrow> delId st k = (map_of (db st) k \<noteq> None, st\<lparr>db := AList.delete k (db st)\<rparr>)"
  by (simp add: healthy_def delId_cases)

lemma saveIds_healthy:
  "healthy st \<Longrightarrow> saveIds st s p e =
     (True, st\<lparr>db := AList.update (buildExternalKey s e) p
                      (AList.update (buildBotmaticKey s p) e (db st))\<rparr>)"
  by (simp add: saveIds_def Let_def keys_truthy saveId_healthy allPromisesTrue_pair)

lemma deleteIds_healthy:
  "healthy st \<Longrightarrow> deleteIds st s p e =
     (map_of (db st) (buildBotmaticKey s p) \<noteq> None
        \<and> map_of (db st) (buildExternalKey s e) \<noteq> None,
      st\<lparr>db := AList.delete (buildExternalKey s e)
                 (AList.delete (buildBotmaticKey s p) (db st))\<rparr>)"
  using botmatic_external_distinct [of s p e]
  by (simp add: deleteIds_def Let_def delId_healthy allPromisesTrue_pair delete_conv')

text \<open>A save that returned \<open>true\<close> has written both entries, whatever the script held.\<close>

lemma saveIds_true_db:
  assumes "saveIds st s p e = (True, st')"
  shows "db st' = AList.update (buildExternalKey s e) p
                      (AList.update (buildBotmaticKey s p) e (db st))"
  using assms
  by (auto simp: saveIds_def Let_def keys_truthy saveId_cases allPromisesTrue_pair
           split: list.splits if_splits)

text \<open>What \<open>deleteAllIds\<close> leaves in the keyspace: the keys its pattern does not match.\<close>

lemma deleteAllIds_healthy_db:
  assumes "healthy st"
  shows "map_of (db (snd (deleteAllIds st s))) k =
           (if stringmatch (s @ '':*'') k then None else map_of (db st) k)"
proof -
  let ?keys = "filter (stringmatch (s @ '':*'')) (map fst (db st))"
  have scan: "client_keys st (s @ '':*'') = (Reply ?keys, st)"
    using assms by (simp add: client_keys_def next_call_def healthy_def)
  show ?thesis
  proof (cases "?keys = []")
    case True
    then have none: "\<forall>k'\<in>fst ` set (db st). \<not> stringmatch (s @ '':*'') k'"
      by (auto simp: filter_empty_conv)
    have "stringmatch (s @ '':*'') k \<Longrightarrow> map_of (db st) k = None"
      using none by (auto simp: map_of_eq_None_iff)
    moreover have "snd (deleteAllIds st s) = st"
      using scan True assms
      by (simp add: deleteAllIds_def client_del_def next_call_def healthy_def)
    ultimately show ?thesis by auto
  next
    case False
    then have "db (snd (deleteAllIds st s)) = snd (redis_del ?keys (db st))"
      using scan assms
      by (simp add: deleteAllIds_def client_del_def next_call_def healthy_def)
    then have "map_of (db (snd (deleteAllIds st s))) k =
                 (if k \<in> set ?keys then None else map_of (db st) k)"
      by (simp add: redis_del_map_of)
    moreover have "k \<notin> fst ` set (db st) \<Longrightarrow> map_of (db st) k = None"
      by (simp add: map_of_eq_None_iff)
    ultimately show ?thesis by auto
  qed
qed


section \<open>Properties of the store\<close>

text \<open>
  C1. For every non-empty scope \<open>s\<close>, primary id \<open>p\<close> and external id \<open>e\<close>: when
  \<open>saveIds s p e\<close> has returned \<open>true\<close>, \<open>getExtId s p\<close> returns \<open>e\<close> and
  \<open>getBotmaticId s e\<close> returns \<open>p\<close>. The lookups run on a backend that answers them.
\<close>

theorem save_then_lookup:
  assumes "s \<noteq> []" and "p \<noteq> []" and "e \<noteq> []"
    and "saveIds st s p e = (True, st')"
    and "healthy st'"
  shows "fst (getExtId st' s p) = Str e \<and> fst (getBotmaticId st' s e) = Str p"
  using saveIds_true_db [OF assms(4)] assms(5) botmatic_external_distinct [of s p e]
  by (simp add: getExtId_healthy getBotmaticId_healthy update_conv')

theorem save_then_lookup_witness:
  "saveIds \<lparr>db = [], faults = []\<rparr> ''0'' ''123'' ''234''
     = (True, \<lparr>db = [(''0:b:123'', ''234''), (''0:e:234'', ''123'')], faults = []\<rparr>)
   \<and> fst (getExtId \<lparr>db = [(''0:b:123'', ''234''), (''0:e:234'', ''123'')], faults = []\<rparr>
             ''0'' ''123'') = Str ''234''
   \<and> fst (getBotmaticId \<lparr>db = [(''0:b:123'', ''234''), (''0:e:234'', ''123'')], faults = []\<rparr>
             ''0'' ''234'') = Str ''123''"
proof -
  have run: "saveIds \<lparr>db = [], faults = []\<rparr> ''0'' ''123'' ''234''
     = (True, \<lparr>db = [(''0:b:123'', ''234''), (''0:e:234'', ''123'')], faults = []\<rparr>)"
    by (simp add: saveIds_def saveId_def client_set_def next_call_def buildBotmaticKey_def
        buildExternalKey_def truthy_def allPromisesTrue_def)
  have ok: "healthy \<lparr>db = [(''0:b:123'', ''234''), (''0:e:234'', ''123'')], faults = []\<rparr>"
    by (simp add: healthy_def)
  show ?thesis
    using run save_then_lookup [OF _ _ _ run ok] by simp
qed

text \<open>
  C2, as it holds. The key encoding is injective over the (scope, direction, id) triples
  whose scopes contain no colon: two such triples with the same key are equal. The ids
  are unrestricted.
\<close>

theorem encodeKey_injective_colon_free:
  assumes "CHR '':'' \<notin> set s1" and "CHR '':'' \<notin> set s2"
    and "encodeKey s1 d1 i1 = encodeKey s2 d2 i2"
  shows "s1 = s2 \<and> d1 = d2 \<and> i1 = i2"
proof -
  let ?t1 = "(case d1 of PRIMARY \<Rightarrow> CHR ''b'' | EXTERNAL \<Rightarrow> CHR ''e'') # CHR '':'' # i1"
  let ?t2 = "(case d2 of PRIMARY \<Rightarrow> CHR ''b'' | EXTERNAL \<Rightarrow> CHR ''e'') # CHR '':'' # i2"
  have eq: "s1 @ CHR '':'' # ?t1 = s2 @ CHR '':'' # ?t2"
    using assms(3) by (simp only: encodeKey_unfold)
  have "takeWhile (\<lambda>c. c \<noteq> CHR '':'') (s1 @ CHR '':'' # ?t1) = s1"
    using assms(1) by (rule scope_before_colon)
  moreover have "takeWhile (\<lambda>c. c \<noteq> CHR '':'') (s2 @ CHR '':'' # ?t2) = s2"
    using assms(2) by (rule scope_before_colon)
  ultimately have scope: "s1 = s2" using eq by simp
  with eq have "?t1 = ?t2" by simp
  then have "d1 = d2" and "i1 = i2"
    by (auto split: direction.splits)
  with scope show ?thesis by simp
qed

theorem encodeKey_injective_colon_free_witness:
  "CHR '':'' \<notin> set ''0'' \<and> encodeKey ''0'' PRIMARY ''123'' = encodeKey ''0'' PRIMARY ''123''
   \<and> (''0'' = ''0'' \<and> PRIMARY = PRIMARY \<and> ''123'' = ''123'')"
  using encodeKey_injective_colon_free [of "''0''" "''0''" PRIMARY "''123''" PRIMARY "''123''"]
  by simp

text \<open>
  C2, as stated, fails: with a colon in the scope, two different triples of non-empty
  strings share one key, within a direction and across the two directions.
\<close>

theorem encodeKey_collision:
  "encodeKey ''a:b'' PRIMARY ''1'' = encodeKey ''a'' PRIMARY ''b:1''
   \<and> (''a:b'', PRIMARY, ''1'') \<noteq> (''a'', PRIMARY, ''b:1'')
   \<and> encodeKey ''a:e'' PRIMARY ''1'' = encodeKey ''a'' EXTERNAL ''b:1''
   \<and> (''a:e'', PRIMARY, ''1'') \<noteq> (''a'', EXTERNAL, ''b:1'')"
  by (simp add: buildBotmaticKey_def buildExternalKey_def)

text \<open>
  C3. For every non-empty scope \<open>s\<close>, primary id \<open>p\<close> and external id \<open>e\<close>: after
  \<open>saveIds s p e\<close> followed at once by \<open>deleteIds s p e\<close>, \<open>getExtId s p\<close> and
  \<open>getBotmaticId s e\<close> both return the absent result (null). The backend answers every
  call.
\<close>

theorem save_delete_absent:
  assumes "s \<noteq> []" and "p \<noteq> []" and "e \<noteq> []" and "healthy st"
  shows "fst (getExtId (snd (deleteIds (snd (saveIds st s p e)) s p e)) s p) = Null
       \<and> fst (getBotmaticId (snd (deleteIds (snd (saveIds st s p e)) s p e)) s e) = Null"
  using assms(4) botmatic_external_distinct [of s p e]
  by (simp add: saveIds_healthy deleteIds_healthy getExtId_healthy getBotmaticId_healthy
      delete_conv')

theorem save_delete_absent_witness:
  "fst (getExtId (snd (deleteIds (snd (saveIds \<lparr>db = [], faults = []\<rparr> ''0'' ''123'' ''234''))
                         ''0'' ''123'' ''234'')) ''0'' ''123'') = Null
   \<and> fst (getBotmaticId (snd (deleteIds (snd (saveIds \<lparr>db = [], faults = []\<rparr> ''0'' ''123'' ''234''))
                         ''0'' ''123'' ''234'')) ''0'' ''234'') = Null"
  using save_delete_absent [of "''0''" "''123''" "''234''" "\<lparr>db = [], faults = []\<rparr>"]
  by (simp add: healthy_def)

text \<open>
  C4. \<open>deleteIds\<close> returns \<open>true\<close> exactly when both DEL calls reply a count of at least
  one row. When the forward or the reverse entry is missing from the keyspace (neither
  exists, or exactly one exists) it returns \<open>false\<close>; on a backend that answers every
  call it returns \<open>true\<close> exactly when both entries existed.
\<close>

theorem deleteIds_true_iff_both_removed:
  "(fst (deleteIds st s p e) \<longleftrightarrow>
      (\<exists>n. fst (client_del st [buildBotmaticKey s p]) = Reply n \<and> 0 < n)
    \<and> (\<exists>m. fst (client_del (snd (client_del st [buildBotmaticKey s p])) [buildExternalKey s e])
              = Reply m \<and> 0 < m))
   \<and> (map_of (db st) (buildBotmaticKey s p) = None \<or> map_of (db st) (buildExternalKey s e) = None
        \<longrightarrow> fst (deleteIds st s p e) = False)
   \<and> (healthy st \<longrightarrow>
        fst (deleteIds st s p e)
          = (map_of (db st) (buildBotmaticKey s p) \<noteq> None
             \<and> map_of (db st) (buildExternalKey s e) \<noteq> None))"
proof -
  let ?bk = "buildBotmaticKey s p" and ?ek = "buildExternalKey s e"
  have res: "fst (deleteIds st s p e) = (fst (delId st ?bk) \<and> fst (delId (snd (delId st ?bk)) ?ek))"
    by (simp add: deleteIds_def Let_def allPromisesTrue_pair)
  have aggregate: "fst (deleteIds st s p e) \<longleftrightarrow>
      (\<exists>n. fst (client_del st [?bk]) = Reply n \<and> 0 < n)
    \<and> (\<exists>m. fst (client_del (snd (client_del st [?bk])) [?ek]) = Reply m \<and> 0 < m)"
    unfolding res by (simp only: delId_reply)
  have second: "map_of (db (snd (delId st ?bk))) ?ek = map_of (db st) ?ek"
    using botmatic_external_distinct [of s p e] by (simp add: delId_other_key)
  have missing: "fst (deleteIds st s p e) = False"
    if "map_of (db st) ?bk = None \<or> map_of (db st) ?ek = None"
    using that delId_true_present [of st ?bk] delId_true_present [of "snd (delId st ?bk)" ?ek]
      second res by auto
  have sound: "fst (deleteIds st s p e) = (map_of (db st) ?bk \<noteq> None \<and> map_of (db st) ?ek \<noteq> None)"
    if "healthy st"
    using that by (simp add: deleteIds_healthy)
  show ?thesis using aggregate missing sound by blast
qed

theorem deleteIds_true_iff_both_removed_witness:
  "fst (deleteIds \<lparr>db = [(''0:b:123'', ''234''), (''0:e:234'', ''123'')], faults = []\<rparr>
          ''0'' ''123'' ''234'') = True
   \<and> fst (deleteIds \<lparr>db = [(''0:b:123'', ''234'')], faults = []\<rparr> ''0'' ''123'' ''234'') = False
   \<and> fst (deleteIds \<lparr>db = [(''0:e:234'', ''123'')], faults = []\<rparr> ''0'' ''123'' ''234'') = False
   \<and> fst (deleteIds \<lparr>db = [], faults = []\<rparr> ''0'' ''123'' ''234'') = False"
  using deleteIds_true_iff_both_removed
          [of "\<lparr>db = [(''0:b:123'', ''234''), (''0:e:234'', ''123'')], faults = []\<rparr>"
              "''0''" "''123''" "''234''"]
        deleteIds_true_iff_both_removed
          [of "\<lparr>db = [(''0:b:123'', ''234'')], faults = []\<rparr>" "''0''" "''123''" "''234''"]
        deleteIds_true_iff_both_removed
          [of "\<lparr>db = [(''0:e:234'', ''123'')], faults = []\<rparr>" "''0''" "''123''" "''234''"]
        deleteIds_true_iff_both_removed
          [of "\<lparr>db = [], faults = []\<rparr>" "''0''" "''123''" "''234''"]
  by (simp add: healthy_def client_del_def next_call_def buildBotmaticKey_def
      buildExternalKey_def)

text \<open>
  C5. \<open>deleteAllIds\<close> returns \<open>true\<close> exactly when the KEYS scan replies a key list, the
  empty list included, and \<open>false\<close> when the scan ends in an error; an error of the DEL
  that follows leaves the result \<open>true\<close>.
\<close>

theorem deleteAllIds_true_iff_scan_ok:
  "(fst (deleteAllIds st s) \<longleftrightarrow> (\<exists>keys. fst (client_keys st (s @ '':*'')) = Reply keys))
   \<and> (fst (client_keys st (s @ '':*'')) = Reply [] \<longrightarrow> fst (deleteAllIds st s) = True)
   \<and> (fst (client_keys st (s @ '':*'')) = Err \<longrightarrow> fst (deleteAllIds st s) = False)
   \<and> (\<forall>keys. fst (client_keys st (s @ '':*'')) = Reply keys
               \<and> fst (client_del (snd (client_keys st (s @ '':*''))) keys) = Err
        \<longrightarrow> fst (deleteAllIds st s) = True)"
  by (auto simp: deleteAllIds_def split: prod.splits reply.splits)

theorem deleteAllIds_true_iff_scan_ok_witness:
  "fst (deleteAllIds \<lparr>db = [], faults = []\<rparr> ''0'') = True
   \<and> fst (deleteAllIds \<lparr>db = [(''0:b:123'', ''234'')], faults = [False, True]\<rparr> ''0'') = True
   \<and> fst (deleteAllIds \<lparr>db = [(''0:b:123'', ''234'')], faults = [True]\<rparr> ''0'') = False"
proof -
  have a: "fst (client_keys \<lparr>db = [], faults = []\<rparr> (''0'' @ '':*'')) = Reply []"
    by (simp add: client_keys_def next_call_def)
  have b: "fst (client_keys \<lparr>db = [(''0:b:123'', ''234'')], faults = [False, True]\<rparr> (''0'' @ '':*''))
             = Reply [''0:b:123'']
           \<and> fst (client_del (snd (client_keys \<lparr>db = [(''0:b:123'', ''234'')], faults = [False, True]\<rparr>
                                      (''0'' @ '':*''))) [''0:b:123'']) = Err"
    by (simp add: client_keys_def client_del_def next_call_def)
  have c: "fst (client_keys \<lparr>db = [(''0:b:123'', ''234'')], faults = [True]\<rparr> (''0'' @ '':*'')) = Err"
    by (simp add: client_keys_def next_call_def)
  show ?thesis
    using a b c
      deleteAllIds_true_iff_scan_ok [of "\<lparr>db = [], faults = []\<rparr>" "''0''"]
      deleteAllIds_true_iff_scan_ok
        [of "\<lparr>db = [(''0:b:123'', ''234'')], faults = [False, True]\<rparr>" "''0''"]
      deleteAllIds_true_iff_scan_ok [of "\<lparr>db = [(''0:b:123'', ''234'')], faults = [True]\<rparr>" "''0''"]
    by blast
qed

text \<open>
  C6, as it holds. On a backend that answers every call, for every scope \<open>s\<close> written
  without \<open>:\<close>, \<open>*\<close>, \<open>?\<close>, \<open>[\<close> and backslash, \<open>deleteAllIds s\<close> returns \<open>true\<close>,
  leaves both lookup directions absent for every id of \<open>s\<close>, and leaves unchanged every
  key that does not start with \<open>s\<close> and a colon, hence every key of a scope \<open>s'\<close> other
  than \<open>s\<close> that contains no colon.
\<close>

theorem deleteAllIds_scope:
  assumes "healthy st" and "plain_scope s"
  shows "fst (deleteAllIds st s) = True
       \<and> fst (getExtId (snd (deleteAllIds st s)) s p) = Null
       \<and> fst (getBotmaticId (snd (deleteAllIds st s)) s e) = Null
       \<and> (\<not> prefix (s @ '':'') k \<longrightarrow>
            map_of (db (snd (deleteAllIds st s))) k = map_of (db st) k)
       \<and> (s' \<noteq> s \<and> CHR '':'' \<notin> set s' \<longrightarrow>
            map_of (db (snd (deleteAllIds st s))) (encodeKey s' d i)
              = map_of (db st) (encodeKey s' d i))"
proof -
  let ?st' = "snd (deleteAllIds st s)"
  have glob: "stringmatch (s @ '':*'') k = prefix (s @ '':'') k" for k
    using assms(2) by (intro stringmatch_scope_prefix) (simp add: plain_scope_def)
  have db': "map_of (db ?st') k = (if prefix (s @ '':'') k then None else map_of (db st) k)" for k
    using deleteAllIds_healthy_db [OF assms(1)] glob by simp
  have h': "healthy ?st'"
    using assms(1)
    by (simp add: deleteAllIds_def client_keys_def client_del_def next_call_def healthy_def)
  have res: "fst (deleteAllIds st s) = True"
    using assms(1) by (simp add: deleteAllIds_def client_keys_def next_call_def healthy_def)
  have own1: "prefix (s @ '':'') (buildBotmaticKey s p)"
    by (simp add: buildBotmaticKey_def)
  have own2: "prefix (s @ '':'') (buildExternalKey s e)"
    by (simp add: buildExternalKey_def)
  have frame: "map_of (db ?st') (encodeKey s' d i) = map_of (db st) (encodeKey s' d i)"
    if "s' \<noteq> s" and "CHR '':'' \<notin> set s'"
  proof -
    obtain r where shape: "encodeKey s' d i = s' @ CHR '':'' # r"
      using encodeKey_unfold by blast
    have "CHR '':'' \<notin> set s" using assms(2) by (auto simp: plain_scope_def)
    with that no_colon_prefix [of s s' r] have "\<not> prefix (s @ '':'') (s' @ CHR '':'' # r)"
      by auto
    with shape db' show ?thesis by simp
  qed
  show ?thesis
    using res h' db' own1 own2 frame
    by (simp add: getExtId_healthy getBotmaticId_healthy)
qed

theorem deleteAllIds_scope_witness:
  "fst (deleteAllIds \<lparr>db = [(''a:b:1'', ''2''), (''a:e:2'', ''1''), (''b:b:3'', ''4''), (''b:e:4'', ''3'')],
                      faults = []\<rparr> ''a'') = True
   \<and> fst (getExtId (snd (deleteAllIds
            \<lparr>db = [(''a:b:1'', ''2''), (''a:e:2'', ''1''), (''b:b:3'', ''4''), (''b:e:4'', ''3'')],
              faults = []\<rparr> ''a'')) ''a'' ''1'') = Null
   \<and> fst (getBotmaticId (snd (deleteAllIds
            \<lparr>db = [(''a:b:1'', ''2''), (''a:e:2'', ''1''), (''b:b:3'', ''4''), (''b:e:4'', ''3'')],
              faults = []\<rparr> ''a'')) ''a'' ''2'') = Null
   \<and> map_of (db (snd (deleteAllIds
            \<lparr>db = [(''a:b:1'', ''2''), (''a:e:2'', ''1''), (''b:b:3'', ''4''), (''b:e:4'', ''3'')],
              faults = []\<rparr> ''a''))) (encodeKey ''b'' PRIMARY ''3'') = Some ''4''"
proof -
  let ?st = "\<lparr>db = [(''a:b:1'', ''2''), (''a:e:2'', ''1''), (''b:b:3'', ''4''), (''b:e:4'', ''3'')],
               faults = []\<rparr>"
  have ok: "healthy ?st" by (simp add: healthy_def)
  have plain: "plain_scope ''a''" by (simp add: plain_scope_def glob_special_def)
  have before: "map_of (db ?st) (encodeKey ''b'' PRIMARY ''3'') = Some ''4''"
    by (simp add: buildBotmaticKey_def)
  show ?thesis
    using deleteAllIds_scope [OF ok plain, of "''1''" "''2''" "''b:b:3''" "''b''" PRIMARY "''3''"]
      before
    by simp
qed

text \<open>
  C6, as stated, fails. A pair saved under the scope \<open>a:b\<close> is removed by
  \<open>deleteAllIds\<close> of the other scope \<open>a\<close>; a pair saved under \<open>b\<close> is removed by
  \<open>deleteAllIds\<close> of the scope \<open>*\<close>; and a pair saved under \<open>[x]\<close> survives
  \<open>deleteAllIds\<close> of its own scope.
\<close>

theorem deleteAllIds_crosses_scopes:
  "fst (getExtId (snd (saveIds \<lparr>db = [], faults = []\<rparr> ''a:b'' ''1'' ''2'')) ''a:b'' ''1'') = Str ''2''
   \<and> fst (getExtId (snd (deleteAllIds (snd (saveIds \<lparr>db = [], faults = []\<rparr> ''a:b'' ''1'' ''2'')) ''a''))
            ''a:b'' ''1'') = Null
   \<and> ''a:b'' \<noteq> ''a''
   \<and> fst (getExtId (snd (saveIds \<lparr>db = [], faults = []\<rparr> ''b'' ''1'' ''2'')) ''b'' ''1'') = Str ''2''
   \<and> fst (getExtId (snd (deleteAllIds (snd (saveIds \<lparr>db = [], faults = []\<rparr> ''b'' ''1'' ''2'')) ''*''))
            ''b'' ''1'') = Null
   \<and> ''b'' \<noteq> ''*''
   \<and> fst (getExtId (snd (deleteAllIds (snd (saveIds \<lparr>db = [], faults = []\<rparr> ''[x]'' ''1'' ''2''))
                         ''[x]'')) ''[x]'' ''1'') = Str ''2''"
  by (simp add: saveIds_def saveId_def client_set_def next_call_def buildBotmaticKey_def
      buildExternalKey_def truthy_def allPromisesTrue_def deleteAllIds_def client_keys_def
      client_del_def getExtId_def getId_def client_get_def)

text \<open>
  C7. \<open>saveIds\<close> returns \<open>true\<close> exactly when both SET calls reply \<open>OK\<close>. When exactly
  one of the two succeeds it returns \<open>false\<close> and the entry that was written is still
  in the keyspace afterwards: nothing is rolled back.
\<close>

theorem saveIds_true_iff_both_sets_ok:
  "(fst (saveIds st s p e) \<longleftrightarrow>
      fst (client_set st (buildBotmaticKey s p) e) = Reply ''OK''
    \<and> fst (client_set (snd (client_set st (buildBotmaticKey s p) e)) (buildExternalKey s e) p)
        = Reply ''OK'')
   \<and> (fst (client_set st (buildBotmaticKey s p) e) = Reply ''OK''
      \<and> fst (client_set (snd (client_set st (buildBotmaticKey s p) e)) (buildExternalKey s e) p)
          \<noteq> Reply ''OK''
      \<longrightarrow> fst (saveIds st s p e) = False
          \<and> map_of (db (snd (saveIds st s p e))) (buildBotmaticKey s p) = Some e)
   \<and> (fst (client_set st (buildBotmaticKey s p) e) \<noteq> Reply ''OK''
      \<and> fst (client_set (snd (client_set st (buildBotmaticKey s p) e)) (buildExternalKey s e) p)
          = Reply ''OK''
      \<longrightarrow> fst (saveIds st s p e) = False
          \<and> map_of (db (snd (saveIds st s p e))) (buildExternalKey s e) = Some p)"
proof -
  let ?bk = "buildBotmaticKey s p" and ?ek = "buildExternalKey s e"
  let ?st1 = "snd (saveId st ?bk e)"
  have res: "fst (saveIds st s p e) = (fst (saveId st ?bk e) \<and> fst (saveId ?st1 ?ek p))"
    by (simp add: saveIds_def Let_def keys_truthy allPromisesTrue_pair)
  have final: "snd (saveIds st s p e) = snd (saveId ?st1 ?ek p)"
    by (simp add: saveIds_def Let_def keys_truthy)
  have first_kept: "map_of (db (snd (saveId ?st1 ?ek p))) ?bk = Some e"
    if "fst (saveId st ?bk e)" and "\<not> fst (saveId ?st1 ?ek p)"
    using that saveId_true_written [of st ?bk e] saveId_false_unchanged [of ?st1 ?ek p]
    by simp
  have second_kept: "map_of (db (snd (saveId ?st1 ?ek p))) ?ek = Some p"
    if "fst (saveId ?st1 ?ek p)"
    using that by (rule saveId_true_written)
  show ?thesis
    using res final first_kept second_kept
    by (simp add: saveId_reply [symmetric])
qed

theorem saveIds_true_iff_both_sets_ok_witness:
  "fst (saveIds \<lparr>db = [], faults = [False, True]\<rparr> ''0'' ''123'' ''234'') = False
   \<and> map_of (db (snd (saveIds \<lparr>db = [], faults = [False, True]\<rparr> ''0'' ''123'' ''234''))) ''0:b:123''
       = Some ''234''
   \<and> fst (saveIds \<lparr>db = [], faults = [True, False]\<rparr> ''0'' ''123'' ''234'') = False
   \<and> map_of (db (snd (saveIds \<lparr>db = [], faults = [True, False]\<rparr> ''0'' ''123'' ''234''))) ''0:e:234''
       = Some ''123''
   \<and> fst (saveIds \<lparr>db = [], faults = []\<rparr> ''0'' ''123'' ''234'') = True"
  using saveIds_true_iff_both_sets_ok
          [of "\<lparr>db = [], faults = [False, True]\<rparr>" "''0''" "''123''" "''234''"]
        saveIds_true_iff_both_sets_ok
          [of "\<lparr>db = [], faults = [True, False]\<rparr>" "''0''" "''123''" "''234''"]
        saveIds_true_iff_both_sets_ok
          [of "\<lparr>db = [], faults = []\<rparr>" "''0''" "''123''" "''234''"]
  by (simp add: client_set_def next_call_def buildBotmaticKey_def buildExternalKey_def)

text \<open>
  C8. A call of \<open>saveIds\<close> with an empty required argument should return \<open>false\<close>. The
  guard of \<open>saveIds\<close> tests the two built keys, which are never empty, so its \<open>false\<close>
  branch is never taken: with every argument empty the two entries are written and the
  call returns \<open>true\<close>.
\<close>

theorem saveIds_empty_arguments_succeed:
  "saveIds \<lparr>db = [], faults = []\<rparr> [] [] []
     = (True, \<lparr>db = [('':b:'', []), ('':e:'', [])], faults = []\<rparr>)"
  by (simp add: saveIds_def saveId_def client_set_def next_call_def buildBotmaticKey_def
      buildExternalKey_def truthy_def allPromisesTrue_def)




text \<open>
  C10. Saving one primary id twice does not keep the two entries of an association
  consistent: for distinct external ids \<open>e1\<close> and \<open>e2\<close>, after \<open>saveIds s p e1\<close> and then
  \<open>saveIds s p e2\<close>, both returning \<open>true\<close>, \<open>getBotmaticId s e1\<close> still returns \<open>p\<close>
  while \<open>getExtId s p\<close> returns \<open>e2\<close> and no longer \<open>e1\<close>. The lookups run on a backend
  that answers them.
\<close>

theorem resave_keeps_stale_reverse_entry:
  assumes "e1 \<noteq> e2"
    and "saveIds st s p e1 = (True, st1)"
    and "saveIds st1 s p e2 = (True, st2)"
    and "healthy st2"
  shows "fst (getBotmaticId st2 s e1) = Str p \<and> fst (getExtId st2 s p) = Str e2
       \<and> fst (getExtId st2 s p) \<noteq> Str e1"
  using saveIds_true_db [OF assms(2)] saveIds_true_db [OF assms(3)] assms(1,4)
    botmatic_external_distinct [of s p e1] botmatic_external_distinct [of s p e2]
  by (simp add: getExtId_healthy getBotmaticId_healthy update_conv'
      buildExternalKey_same_scope)

theorem resave_keeps_stale_reverse_entry_witness:
  "saveIds \<lparr>db = [], faults = []\<rparr> ''0'' ''123'' ''234''
     = (True, \<lparr>db = [(''0:b:123'', ''234''), (''0:e:234'', ''123'')], faults = []\<rparr>)
   \<and> saveIds \<lparr>db = [(''0:b:123'', ''234''), (''0:e:234'', ''123'')], faults = []\<rparr> ''0'' ''123'' ''999''
     = (True, \<lparr>db = [(''0:b:123'', ''999''), (''0:e:234'', ''123''), (''0:e:999'', ''123'')],
               faults = []\<rparr>)
   \<and> fst (getBotmaticId \<lparr>db = [(''0:b:123'', ''999''), (''0:e:234'', ''123''), (''0:e:999'', ''123'')],
               faults = []\<rparr> ''0'' ''234'') = Str ''123''
   \<and> fst (getExtId \<lparr>db = [(''0:b:123'', ''999''), (''0:e:234'', ''123''), (''0:e:999'', ''123'')],
               faults = []\<rparr> ''0'' ''123'') = Str ''999''"
proof -
  let ?st1 = "\<lparr>db = [(''0:b:123'', ''234''), (''0:e:234'', ''123'')], faults = []\<rparr>"
  let ?st2 = "\<lparr>db = [(''0:b:123'', ''999''), (''0:e:234'', ''123''), (''0:e:999'', ''123'')],
               faults = []\<rparr>"
  have one: "saveIds \<lparr>db = [], faults = []\<rparr> ''0'' ''123'' ''234'' = (True, ?st1)"
    by (simp add: saveIds_def saveId_def client_set_def next_call_def buildBotmaticKey_def
        buildExternalKey_def truthy_def allPromisesTrue_def)
  have two: "saveIds ?st1 ''0'' ''123'' ''999'' = (True, ?st2)"
    by (simp add: saveIds_def saveId_def client_set_def next_call_def buildBotmaticKey_def
        buildExternalKey_def truthy_def allPromisesTrue_def)
  have ok: "healthy ?st2" by (simp add: healthy_def)
  have ne: "''234'' \<noteq> ''999''" by simp
  show ?thesis
    using one two resave_keeps_stale_reverse_entry [OF ne one two ok] by simp
qed

end
